theory Spec2Isabelle
  imports Complex_Main "HOL-Library.Sublist"
begin

section \<open>JavaScript strings and values\<close>

text \<open>
  A JavaScript string is a sequence of UTF-16 code units; \<open>length\<close> counts code units, as
  \<^verbatim>\<open>String.prototype.length\<close> does. Literals of the source are ASCII and are written
  \<open>js ''...''\<close>. Property names and command names, which the source only compares with
  ASCII literals, stay HOL strings.
\<close>

type_synonym jsstring = "nat list"

definition js :: "string \<Rightarrow> jsstring" where
  "js s = map of_char s"

abbreviation LF :: nat where
  "LF \<equiv> 10"

text \<open>\<^verbatim>\<open>WhiteSpace\<close> and \<^verbatim>\<open>LineTerminator\<close> of ECMAScript, the code units that
  \<^verbatim>\<open>String.prototype.trim\<close> strips.\<close>

definition is_white_space :: "nat \<Rightarrow> bool" where
  "is_white_space c \<longleftrightarrow>
     c \<in> {9, 10, 11, 12, 13, 32, 160, 5760, 8232, 8233, 8239, 8287, 12288, 65279}
     \<or> (8192 \<le> c \<and> c \<le> 8202)"

definition trim :: "jsstring \<Rightarrow> jsstring" where
  "trim s = rev (dropWhile is_white_space (rev (dropWhile is_white_space s)))"

text \<open>\<^verbatim>\<open>s.includes(sub)\<close>: \<open>sub\<close> occurs in \<open>s\<close> as a contiguous run.\<close>

fun str_includes :: "jsstring \<Rightarrow> jsstring \<Rightarrow> bool" where
  "str_includes [] sub = (sub = [])"
| "str_includes (c # cs) sub = (prefix sub (c # cs) \<or> str_includes cs sub)"

text \<open>\<^verbatim>\<open>s.split(d)\<close> for a separator of one code unit: never empty, one more segment than
  there are separators.\<close>

fun split_on :: "nat \<Rightarrow> jsstring \<Rightarrow> jsstring list" where
  "split_on d [] = [[]]"
| "split_on d (c # cs) =
     (if c = d then [] # split_on d cs
      else (case split_on d cs of
              [] \<Rightarrow> [[c]]
            | l # ls \<Rightarrow> (c # l) # ls))"

text \<open>The values a request body or a wire record holds. \<open>undefined\<close> is not a value here:
  an absent property is \<open>None\<close>.\<close>

datatype jsval =
    VNull
  | VBool bool
  | VNum rat
  | VStr jsstring
  | VArr "jsval list"
  | VObj "(jsstring \<times> jsval) list"

fun truthy :: "jsval \<Rightarrow> bool" where
  "truthy VNull = False"
| "truthy (VBool b) = b"
| "truthy (VNum n) = (n \<noteq> 0)"
| "truthy (VStr s) = (s \<noteq> [])"
| "truthy (VArr _) = True"
| "truthy (VObj _) = True"

fun typeof :: "jsval \<Rightarrow> string" where
  "typeof VNull = ''object''"
| "typeof (VBool _) = ''boolean''"
| "typeof (VNum _) = ''number''"
| "typeof (VStr _) = ''string''"
| "typeof (VArr _) = ''object''"
| "typeof (VObj _) = ''object''"

text \<open>\<^verbatim>\<open>v || d\<close> on an optional number and on an optional value: the default replaces
  every falsy operand, the absent one and the number zero alike.\<close>

definition or_num :: "rat option \<Rightarrow> rat \<Rightarrow> rat" where
  "or_num v d = (case v of None \<Rightarrow> d | Some x \<Rightarrow> if x \<noteq> 0 then x else d)"

definition or_val :: "jsval option \<Rightarrow> jsval \<Rightarrow> jsval" where
  "or_val v d = (case v of None \<Rightarrow> d | Some x \<Rightarrow> if truthy x then x else d)"

text \<open>An object with string keys keeps its properties in insertion order; assigning an
  existing key keeps its place.\<close>

type_synonym jsobject = "(string \<times> jsval) list"

fun set_prop :: "jsobject \<Rightarrow> string \<Rightarrow> jsval \<Rightarrow> jsobject" where
  "set_prop [] k v = [(k, v)]"
| "set_prop ((k', v') # ps) k v =
     (if k' = k then (k, v) # ps else (k', v') # set_prop ps k v)"

fun object_assign :: "jsobject \<Rightarrow> jsobject \<Rightarrow> jsobject" where
  "object_assign target [] = target"
| "object_assign target ((k, v) # src) = object_assign (set_prop target k v) src"

definition keys :: "jsobject \<Rightarrow> string list" where
  "keys obj = map fst obj"

definition get_prop :: "jsobject \<Rightarrow> string \<Rightarrow> jsval option" where
  "get_prop obj k = map_of obj k"

section \<open>Command validation\<close>

text \<open>
  The parameter bag of a request. \<open>speed\<close> and \<open>duration\<close> are absent or a finite number,
  as the API documents them; the other parameters are absent or any value.
\<close>

record params =
  speed :: "rat option"
  duration :: "rat option"
  "text" :: "jsval option"
  frequency :: "jsval option"
  l_left :: "jsval option"
  l_forward :: "jsval option"
  r_left :: "jsval option"
  r_forward :: "jsval option"

text \<open>Every \<^verbatim>\<open>throw new Error(...)\<close> and \<^verbatim>\<open>reject(new Error(...))\<close> of the source,
  with its message.\<close>

datatype error =
    InvalidCommand string
  | SpeedOutOfRange
  | DurationOutOfRange
  | TextRequired
  | TextTooLong
  | ConnectionTimeout
  | ConnectionError string

fun message :: "error \<Rightarrow> string" where
  "message (InvalidCommand c) = ''Invalid command: '' @ c"
| "message SpeedOutOfRange = ''Speed must be between 0 and 2000''"
| "message DurationOutOfRange = ''Duration cannot exceed 10 seconds for safety''"
| "message TextRequired = ''Text parameter is required for speak command''"
| "message TextTooLong = ''Text length cannot exceed 500 characters''"
| "message ConnectionTimeout = ''Connection timeout''"
| "message (ConnectionError m) = ''Connection error: '' @ m"

definition validCommands :: "string list" where
  "validCommands =
     [''forward'', ''backward'', ''left'', ''right'', ''turret_left'', ''turret_right'',
      ''stop'', ''stop_turret'', ''get_status'', ''joystick_control'', ''get_help'',
      ''speak'', ''battery'', ''beep'']"

definition validateCommand :: "string \<Rightarrow> params \<Rightarrow> error + unit" where
  "validateCommand command p =
     (if command \<notin> set validCommands then Inl (InvalidCommand command)
      else if (case speed p of None \<Rightarrow> False
               | Some v \<Rightarrow> v \<noteq> 0 \<and> (v < 0 \<or> v > 2000)) then Inl SpeedOutOfRange
      else if (case duration p of None \<Rightarrow> False
               | Some d \<Rightarrow> d \<noteq> 0 \<and> d > 10) then Inl DurationOutOfRange
      else if command = ''speak'' then
        (case text p of
           None \<Rightarrow> Inl TextRequired
         | Some t \<Rightarrow>
             if \<not> truthy t \<or> typeof t \<noteq> ''string'' then Inl TextRequired
             else (case t of
                     VStr s \<Rightarrow> if length s > 500 then Inl TextTooLong else Inr ()
                   | _ \<Rightarrow> Inr ()))
      else Inr ())"

section \<open>Command translation\<close>

text \<open>
  The \<^verbatim>\<open>switch\<close> of \<^verbatim>\<open>controlRobot\<close>: the arguments of the call
  \<^verbatim>\<open>sendCommandToRobot(action, direction, speed, duration, extraParams)\<close>. A variable the
  branch leaves unassigned is \<open>None\<close>. \<open>None\<close> as the result is the \<^verbatim>\<open>default\<close> branch.
\<close>

type_synonym robot_call = "string \<times> string option \<times> rat option \<times> rat option \<times> jsobject"

definition translate :: "string \<Rightarrow> params \<Rightarrow> robot_call option" where
  "translate command p =
     (if command = ''forward'' then
        Some (''move'', Some ''forward'', Some (or_num (speed p) 500), Some (or_num (duration p) 0), [])
      else if command = ''backward'' then
        Some (''move'', Some ''backward'', Some (or_num (speed p) 500), Some (or_num (duration p) 0), [])
      else if command = ''left'' then
        Some (''move'', Some ''left'', Some (or_num (speed p) 300), Some (or_num (duration p) 0), [])
      else if command = ''right'' then
        Some (''move'', Some ''right'', Some (or_num (speed p) 300), Some (or_num (duration p) 0), [])
      else if command = ''turret_left'' then
        Some (''turret'', Some ''left'', Some (or_num (speed p) 200), Some (or_num (duration p) 0), [])
      else if command = ''turret_right'' then
        Some (''turret'', Some ''right'', Some (or_num (speed p) 200), Some (or_num (duration p) 0), [])
      else if command = ''stop'' then Some (''stop'', None, None, None, [])
      else if command = ''stop_turret'' then Some (''stop_turret'', None, None, None, [])
      else if command = ''get_status'' then Some (''status'', None, None, None, [])
      else if command = ''get_help'' then Some (''help'', None, None, None, [])
      else if command = ''joystick_control'' then
        Some (''joystick'', None, None, None,
              [(''l_left'', or_val (l_left p) (VNum 0)),
               (''l_forward'', or_val (l_forward p) (VNum 0)),
               (''r_left'', or_val (r_left p) (VNum 0)),
               (''r_forward'', or_val (r_forward p) (VNum 0))])
      else if command = ''speak'' then
        Some (''speak'', None, None, None,
              (case text p of None \<Rightarrow> [] | Some t \<Rightarrow> [(''text'', t)]))
      else if command = ''battery'' then Some (''battery'', None, None, None, [])
      else if command = ''beep'' then
        Some (''beep'', None, None, None,
              (case frequency p of None \<Rightarrow> [] | Some f \<Rightarrow> [(''frequency'', f)]) @
              (case duration p of None \<Rightarrow> [] | Some d \<Rightarrow> [(''duration'', VNum d)]))
      else None)"

text \<open>
  The command object \<^verbatim>\<open>sendCommandToRobot\<close> builds and serialises. An omitted argument
  takes the parameter default \<^verbatim>\<open>null\<close>; \<^verbatim>\<open>direction\<close> is tested for truthiness,
  \<^verbatim>\<open>speed\<close> and \<^verbatim>\<open>duration\<close> against \<^verbatim>\<open>null\<close>.
  \<^verbatim>\<open>JSON.stringify\<close> writes every property of the object, none of which is
  \<^verbatim>\<open>undefined\<close>, so the fields of the wire message are the keys of this object.
\<close>

definition build_command ::
    "string \<Rightarrow> string option \<Rightarrow> rat option \<Rightarrow> rat option \<Rightarrow> jsobject \<Rightarrow> jsobject" where
  "build_command a d s t extra =
     object_assign
       ([(''action'', VStr (js a))] @
        (case d of None \<Rightarrow> [] | Some x \<Rightarrow> if x \<noteq> [] then [(''direction'', VStr (js x))] else []) @
        (case s of None \<Rightarrow> [] | Some v \<Rightarrow> [(''speed'', VNum v)]) @
        (case t of None \<Rightarrow> [] | Some v \<Rightarrow> [(''duration'', VNum v)]))
       extra"

definition wire_record :: "robot_call \<Rightarrow> jsobject" where
  "wire_record call = (case call of (a, d, s, t, extra) \<Rightarrow> build_command a d s t extra)"

section \<open>JSON.parse\<close>

text \<open>
  \<^verbatim>\<open>JSON.parse\<close> is a built-in of the platform. The transport client is modelled for an
  arbitrary parser \<open>parse\<close>, \<open>None\<close> standing for the \<^verbatim>\<open>SyntaxError\<close> it throws.
  \<open>JSON_parse\<close> below is the JSON grammar of ECMA-404, used where a claim names a concrete
  text. It returns the syntax tree of the text: a number keeps its lexeme (the runtime
  rounds it to a binary64 value), an object keeps its members in the order of the text.
\<close>

datatype json =
    JNull
  | JBool bool
  | JNumber jsstring
  | JString jsstring
  | JArray "json list"
  | JObject "(jsstring \<times> json) list"

definition is_json_ws :: "nat \<Rightarrow> bool" where
  "is_json_ws c \<longleftrightarrow> c = 9 \<or> c = 10 \<or> c = 13 \<or> c = 32"

definition skip_ws :: "jsstring \<Rightarrow> jsstring" where
  "skip_ws s = dropWhile is_json_ws s"

definition is_digit :: "nat \<Rightarrow> bool" where
  "is_digit c \<longleftrightarrow> 48 \<le> c \<and> c \<le> 57"

definition hex_val :: "nat \<Rightarrow> nat option" where
  "hex_val c =
     (if 48 \<le> c \<and> c \<le> 57 then Some (c - 48)
      else if 97 \<le> c \<and> c \<le> 102 then Some (c - 87)
      else if 65 \<le> c \<and> c \<le> 70 then Some (c - 55)
      else None)"

text \<open>The code unit an escape \<^verbatim>\<open>\c\<close> stands for: the quote, the backslash, the slash,
  and \<^verbatim>\<open>b f n r t\<close>.\<close>

definition unescape :: "nat \<Rightarrow> nat option" where
  "unescape e =
     (if e = 34 \<or> e = 92 \<or> e = 47 then Some e
      else if e = 98 then Some 8
      else if e = 102 then Some 12
      else if e = 110 then Some 10
      else if e = 114 then Some 13
      else if e = 116 then Some 9
      else None)"

text \<open>The characters of a string after its opening quote, up to the closing quote:
  the decoded string and the rest of the input.\<close>

fun parse_chars :: "jsstring \<Rightarrow> (jsstring \<times> jsstring) option" where
  "parse_chars [] = None"
| "parse_chars (c # cs) =
     (if c = 34 then Some ([], cs)
      else if c = 92 then
        (case cs of
           [] \<Rightarrow> None
         | e # es \<Rightarrow>
             if e = 117 then
               (case es of
                  h1 # h2 # h3 # h4 # r \<Rightarrow>
                    (case (hex_val h1, hex_val h2, hex_val h3, hex_val h4) of
                       (Some a, Some b, Some c', Some d) \<Rightarrow>
                         (case parse_chars r of
                            None \<Rightarrow> None
                          | Some (str, rest) \<Rightarrow>
                              Some ((((a * 16 + b) * 16 + c') * 16 + d) # str, rest))
                     | _ \<Rightarrow> None)
                | _ \<Rightarrow> None)
             else
               (case unescape e of
                  None \<Rightarrow> None
                | Some u \<Rightarrow>
                    (case parse_chars es of
                       None \<Rightarrow> None
                     | Some (str, rest) \<Rightarrow> Some (u # str, rest))))
      else if c < 32 then None
      else (case parse_chars cs of
              None \<Rightarrow> None
            | Some (str, rest) \<Rightarrow> Some (c # str, rest)))"

text \<open>A number: an optional minus, \<^verbatim>\<open>0\<close> or a digit sequence without leading zero, an
  optional fraction, an optional exponent. The lexeme and the rest of the input.\<close>

definition parse_int_part :: "jsstring \<Rightarrow> (jsstring \<times> jsstring) option" where
  "parse_int_part s =
     (case s of
        [] \<Rightarrow> None
      | c # cs \<Rightarrow>
          if c = 48 then Some ([48], cs)
          else if is_digit c then Some (takeWhile is_digit s, dropWhile is_digit s)
          else None)"

definition parse_frac_part :: "jsstring \<Rightarrow> (jsstring \<times> jsstring) option" where
  "parse_frac_part s =
     (case s of
        [] \<Rightarrow> Some ([], s)
      | c # cs \<Rightarrow>
          if c = 46 then
            (if takeWhile is_digit cs = [] then None
             else Some (c # takeWhile is_digit cs, dropWhile is_digit cs))
          else Some ([], s))"

definition parse_exp_part :: "jsstring \<Rightarrow> (jsstring \<times> jsstring) option" where
  "parse_exp_part s =
     (case s of
        [] \<Rightarrow> Some ([], s)
      | c # cs \<Rightarrow>
          if c = 101 \<or> c = 69 then
            (let sgn = (case cs of [] \<Rightarrow> [] | g # _ \<Rightarrow> if g = 43 \<or> g = 45 then [g] else []);
                 ds = drop (length sgn) cs
             in if takeWhile is_digit ds = [] then None
                else Some (c # sgn @ takeWhile is_digit ds, dropWhile is_digit ds))
          else Some ([], s))"

definition parse_number :: "jsstring \<Rightarrow> (jsstring \<times> jsstring) option" where
  "parse_number s =
     (let sgn = (case s of [] \<Rightarrow> [] | g # _ \<Rightarrow> if g = 45 then [g] else [])
      in case parse_int_part (drop (length sgn) s) of
           None \<Rightarrow> None
         | Some (ip, r1) \<Rightarrow>
             (case parse_frac_part r1 of
                None \<Rightarrow> None
              | Some (fp, r2) \<Rightarrow>
                  (case parse_exp_part r2 of
                     None \<Rightarrow> None
                   | Some (ep, r3) \<Rightarrow> Some (sgn @ ip @ fp @ ep, r3))))"

text \<open>
  A value, the elements of an array after its bracket, the members of an object after its
  brace. The first argument bounds the number of nested calls; \<open>JSON_parse\<close> starts with
  \<open>2 * length s + 2\<close>, which the calls on \<open>s\<close> cannot use up, since of two
  consecutive calls at least one has consumed a code unit (\<open>JSON_parse_fuel\<close> below).
\<close>

fun parse_value :: "nat \<Rightarrow> jsstring \<Rightarrow> (json \<times> jsstring) option"
  and parse_elements :: "nat \<Rightarrow> jsstring \<Rightarrow> (json list \<times> jsstring) option"
  and parse_members :: "nat \<Rightarrow> jsstring \<Rightarrow> ((jsstring \<times> json) list \<times> jsstring) option"
where
  "parse_value 0 s = None"
| "parse_value (Suc n) s =
     (case s of
        [] \<Rightarrow> None
      | c # cs \<Rightarrow>
          if c = 123 then
            (case skip_ws cs of
               [] \<Rightarrow> None
             | c1 # r \<Rightarrow>
                 if c1 = 125 then Some (JObject [], r)
                 else (case parse_members n (c1 # r) of
                         None \<Rightarrow> None
                       | Some (ms, r') \<Rightarrow> Some (JObject ms, r')))
          else if c = 91 then
            (case skip_ws cs of
               [] \<Rightarrow> None
             | c1 # r \<Rightarrow>
                 if c1 = 93 then Some (JArray [], r)
                 else (case parse_elements n (c1 # r) of
                         None \<Rightarrow> None
                       | Some (vs, r') \<Rightarrow> Some (JArray vs, r')))
          else if c = 34 then
            (case parse_chars cs of
               None \<Rightarrow> None
             | Some (str, r) \<Rightarrow> Some (JString str, r))
          else if prefix (js ''true'') s then Some (JBool True, drop 4 s)
          else if prefix (js ''false'') s then Some (JBool False, drop 5 s)
          else if prefix (js ''null'') s then Some (JNull, drop 4 s)
          else (case parse_number s of
                  None \<Rightarrow> None
                | Some (lexeme, r) \<Rightarrow> Some (JNumber lexeme, r)))"
| "parse_elements 0 s = None"
| "parse_elements (Suc n) s =
     (case parse_value n s of
        None \<Rightarrow> None
      | Some (v, r1) \<Rightarrow>
          (case skip_ws r1 of
             [] \<Rightarrow> None
           | c # r2 \<Rightarrow>
               if c = 93 then Some ([v], r2)
               else if c = 44 then
                 (case parse_elements n (skip_ws r2) of
                    None \<Rightarrow> None
                  | Some (vs, r3) \<Rightarrow> Some (v # vs, r3))
               else None))"
| "parse_members 0 s = None"
| "parse_members (Suc n) s =
     (case s of
        [] \<Rightarrow> None
      | q # cs \<Rightarrow>
          if q \<noteq> 34 then None
          else (case parse_chars cs of
                  None \<Rightarrow> None
                | Some (k, r1) \<Rightarrow>
                    (case skip_ws r1 of
                       [] \<Rightarrow> None
                     | c # r2 \<Rightarrow>
                         if c \<noteq> 58 then None
                         else (case parse_value n (skip_ws r2) of
                                 None \<Rightarrow> None
                               | Some (v, r3) \<Rightarrow>
                                   (case skip_ws r3 of
                                      [] \<Rightarrow> None
                                    | c' # r4 \<Rightarrow>
                                        if c' = 125 then Some ([(k, v)], r4)
                                        else if c' = 44 then
                                          (case parse_members n (skip_ws r4) of
                                             None \<Rightarrow> None
                                           | Some (ms, r5) \<Rightarrow> Some ((k, v) # ms, r5))
                                        else None)))))"

definition JSON_parse :: "jsstring \<Rightarrow> json option" where
  "JSON_parse s =
     (case parse_value (2 * length s + 2) (skip_ws s) of
        None \<Rightarrow> None
      | Some (v, r) \<Rightarrow> if skip_ws r = [] then Some v else None)"

section \<open>The transport client\<close>

text \<open>
  What \<^verbatim>\<open>sendCommandToRobot\<close> resolves with: the parsed reply, or the object
  \<^verbatim>\<open>{ success: true, response: text }\<close> around the trimmed text of a line that is not
  JSON. The promise is resolved with a response or rejected with an error.
\<close>

datatype 'j response = Parsed 'j | TextResponse jsstring

datatype 'j outcome = Resolved "'j response" | Rejected error

definition is_greeting :: "jsstring \<Rightarrow> bool" where
  "is_greeting m \<longleftrightarrow> str_includes m (js ''Welcome'') \<or> str_includes m (js ''Send JSON'')"

text \<open>
  The \<^verbatim>\<open>for\<close> loop of the data handler over the complete lines: \<open>None\<close> when the loop
  runs to its end, \<open>Some r\<close> when an iteration resolves with \<open>r\<close> and returns.
\<close>

fun process_messages :: "(jsstring \<Rightarrow> 'j option) \<Rightarrow> jsstring list \<Rightarrow> 'j response option" where
  "process_messages parse [] = None"
| "process_messages parse (m # ms) =
     (if trim m = [] then process_messages parse ms
      else if is_greeting m then process_messages parse ms
      else (case parse m of
              Some parsed \<Rightarrow> Some (Parsed parsed)
            | None \<Rightarrow>
                if length (trim m) > 0 then Some (TextResponse (trim m))
                else process_messages parse ms))"

text \<open>
  The events of a socket, in the order the runtime delivers them to the handlers the
  source registers: the connect callback, \<^verbatim>\<open>data\<close> with the decoded chunk,
  \<^verbatim>\<open>timeout\<close>, \<^verbatim>\<open>error\<close> with its message, \<^verbatim>\<open>close\<close>.
\<close>

datatype event = Connected | Data jsstring | Timeout | SocketError string | Close

text \<open>
  The state of one call. \<open>written\<close> holds the command objects whose serialisation, followed
  by a line feed, was written to the socket. \<open>calls\<close> lists the calls of
  \<^verbatim>\<open>resolve\<close> and \<^verbatim>\<open>reject\<close> in order; a promise is settled by the first of them and
  ignores the others. \<open>destroyed\<close> is set by \<^verbatim>\<open>client.destroy()\<close> and by the socket's
  closing; a destroyed socket delivers no further \<^verbatim>\<open>data\<close> or \<^verbatim>\<open>timeout\<close> event, and
  its \<^verbatim>\<open>close\<close> handler only logs.
\<close>

record 'j session =
  connected :: bool
  destroyed :: bool
  written :: "jsobject list"
  buffer :: jsstring
  calls :: "'j outcome list"

definition initial :: "'j session" where
  "initial = \<lparr>connected = False, destroyed = False, written = [], buffer = [], calls = []\<rparr>"

definition on_data :: "(jsstring \<Rightarrow> 'j option) \<Rightarrow> 'j session \<Rightarrow> jsstring \<Rightarrow> 'j session" where
  "on_data parse s chunk =
     (let messages = split_on LF (buffer s @ chunk);
          s' = s\<lparr>buffer := last messages\<rparr>
      in case process_messages parse (butlast messages) of
           None \<Rightarrow> s'
         | Some r \<Rightarrow> s'\<lparr>destroyed := True, calls := calls s' @ [Resolved r]\<rparr>)"

definition step :: "(jsstring \<Rightarrow> 'j option) \<Rightarrow> jsobject \<Rightarrow> 'j session \<Rightarrow> event \<Rightarrow> 'j session" where
  "step parse cmd s ev =
     (if destroyed s then s
      else case ev of
        Connected \<Rightarrow> s\<lparr>connected := True, written := written s @ [cmd], buffer := []\<rparr>
      | Data chunk \<Rightarrow> if connected s then on_data parse s chunk else s
      | Timeout \<Rightarrow> s\<lparr>destroyed := True, calls := calls s @ [Rejected ConnectionTimeout]\<rparr>
      | SocketError m \<Rightarrow> s\<lparr>calls := calls s @ [Rejected (ConnectionError m)]\<rparr>
      | Close \<Rightarrow> s\<lparr>destroyed := True\<rparr>)"

definition run :: "(jsstring \<Rightarrow> 'j option) \<Rightarrow> jsobject \<Rightarrow> event list \<Rightarrow> 'j session" where
  "run parse cmd events = foldl (step parse cmd) initial events"

text \<open>The state of the promise: \<open>None\<close> while no call has settled it.\<close>

definition settled :: "'j session \<Rightarrow> 'j outcome option" where
  "settled s = (case calls s of [] \<Rightarrow> None | c # _ \<Rightarrow> Some c)"

text \<open>
  \<^verbatim>\<open>sendCommandToRobot\<close> against a peer and network that produce the events \<open>events\<close> and
  then nothing more: the value the promise is settled with, \<open>None\<close> when it stays pending.
\<close>

definition sendCommandToRobot ::
    "(jsstring \<Rightarrow> 'j option) \<Rightarrow> string \<Rightarrow> string option \<Rightarrow> rat option \<Rightarrow> rat option \<Rightarrow> jsobject
       \<Rightarrow> event list \<Rightarrow> 'j outcome option" where
  "sendCommandToRobot parse a d s t extra events =
     settled (run parse (build_command a d s t extra) events)"

section \<open>The request handler\<close>

text \<open>
  A request as the handler reads it. \<open>auth_error\<close> is the message of the error
  \<^verbatim>\<open>authenticateRequest\<close> throws, if it throws: the authentication module is a collaborator
  and only its outcome enters. A missing \<^verbatim>\<open>command\<close> is \<open>None\<close>; the empty string is
  falsy as well.
\<close>

record request =
  http_method :: string
  auth_error :: "string option"
  command :: "string option"
  params :: params

text \<open>
  The response bodies: \<^verbatim>\<open>{error}\<close> of the early returns,
  \<^verbatim>\<open>{success: false, error, timestamp}\<close> of the \<^verbatim>\<open>catch\<close> block and
  \<^verbatim>\<open>{success: true, command, result, timestamp}\<close>. The timestamp, read from the clock, is
  left out.
\<close>

datatype 'j body = ErrorBody string | FailureBody string | SuccessBody string "'j response"

text \<open>
  \<open>dispatch\<close> is the handler up to the call of \<^verbatim>\<open>sendCommandToRobot\<close>: \<open>Inl\<close> is a
  response sent without that call, hence without any socket; \<open>Inr\<close> is the call made, with
  the command name the success envelope repeats.
\<close>

definition dispatch :: "request \<Rightarrow> (nat \<times> 'j body) + (string \<times> robot_call)" where
  "dispatch req =
     (if http_method req \<noteq> ''POST'' then Inl (405, ErrorBody ''Method not allowed'')
      else case auth_error req of
        Some m \<Rightarrow> Inl (401, ErrorBody m)
      | None \<Rightarrow>
          (case command req of
             None \<Rightarrow> Inl (400, ErrorBody ''Command is required'')
           | Some c \<Rightarrow>
               if c = [] then Inl (400, ErrorBody ''Command is required'')
               else (case validateCommand c (params req) of
                       Inl e \<Rightarrow> Inl (500, FailureBody (message e))
                     | Inr _ \<Rightarrow>
                         (case translate c (params req) of
                            None \<Rightarrow> Inl (400, ErrorBody (''Unsupported command: '' @ c))
                          | Some call \<Rightarrow> Inr (c, call)))))"

text \<open>The whole handler: the response sent, \<open>None\<close> when the awaited promise stays pending
  and no response is ever sent.\<close>

definition controlRobot ::
    "(jsstring \<Rightarrow> 'j option) \<Rightarrow> request \<Rightarrow> event list \<Rightarrow> (nat \<times> 'j body) option" where
  "controlRobot parse req events =
     (case dispatch req of
        Inl r \<Rightarrow> Some r
      | Inr (c, a, d, s, t, extra) \<Rightarrow>
          (case sendCommandToRobot parse a d s t extra events of
             None \<Rightarrow> None
           | Some (Resolved result) \<Rightarrow> Some (200, SuccessBody c result)
           | Some (Rejected e) \<Rightarrow> Some (500, FailureBody (message e))))"

section \<open>The vocabulary of the specification\<close>

text \<open>The range rule: a supplied speed lies in \<open>[0, 2000]\<close>, a supplied duration is at most
  \<open>10\<close>.\<close>

definition in_range :: "params \<Rightarrow> bool" where
  "in_range p \<longleftrightarrow>
     (case speed p of None \<Rightarrow> True | Some v \<Rightarrow> 0 \<le> v \<and> v \<le> 2000) \<and>
     (case duration p of None \<Rightarrow> True | Some d \<Rightarrow> d \<le> 10)"

text \<open>The error kinds of the specification, as sets of the errors the source throws.\<close>

fun OutOfRange :: "error \<Rightarrow> bool" where
  "OutOfRange SpeedOutOfRange = True"
| "OutOfRange DurationOutOfRange = True"
| "OutOfRange _ = False"

fun InvalidParameter :: "error \<Rightarrow> bool" where
  "InvalidParameter TextRequired = True"
| "InvalidParameter TextTooLong = True"
| "InvalidParameter _ = False"

text \<open>The complete lines of a stream and its unterminated remainder.\<close>

definition complete_lines :: "jsstring \<Rightarrow> jsstring list" where
  "complete_lines stream = butlast (split_on LF stream)"

definition remainder :: "jsstring \<Rightarrow> jsstring" where
  "remainder stream = last (split_on LF stream)"

text \<open>A line the client discards: empty or whitespace only, or a greeting.\<close>

definition discarded :: "jsstring \<Rightarrow> bool" where
  "discarded m \<longleftrightarrow> trim m = [] \<or> is_greeting m"

text \<open>The response a line stands for: its parsed value, or else its trimmed text.\<close>

definition response_of :: "(jsstring \<Rightarrow> 'j option) \<Rightarrow> jsstring \<Rightarrow> 'j response" where
  "response_of parse m = (case parse m of Some v \<Rightarrow> Parsed v | None \<Rightarrow> TextResponse (trim m))"

text \<open>The specification of the framing: the response of the first line that is not
  discarded.\<close>

definition first_reply :: "(jsstring \<Rightarrow> 'j option) \<Rightarrow> jsstring list \<Rightarrow> 'j response option" where
  "first_reply parse ms = map_option (response_of parse) (find (\<lambda>m. \<not> discarded m) ms)"

text \<open>
  The invariant of a connected call that has received the stream \<open>stream\<close> so far: either
  no complete line has been accepted, the promise is pending and the buffer holds the
  unterminated remainder; or the first accepted line has resolved the promise, once, and
  the socket is destroyed.
\<close>

definition awaiting :: "(jsstring \<Rightarrow> 'j option) \<Rightarrow> jsobject \<Rightarrow> jsstring \<Rightarrow> 'j session \<Rightarrow> bool" where
  "awaiting parse cmd stream s \<longleftrightarrow>
     connected s \<and> written s = [cmd] \<and>
     (case first_reply parse (complete_lines stream) of
        None \<Rightarrow> \<not> destroyed s \<and> calls s = [] \<and> buffer s = remainder stream
      | Some r \<Rightarrow> destroyed s \<and> calls s = [Resolved r])"

text \<open>Requests and parameter bags for the examples.\<close>

definition no_params :: params where
  "no_params =
     \<lparr>speed = None, duration = None, text = None, frequency = None,
      l_left = None, l_forward = None, r_left = None, r_forward = None\<rparr>"

definition post :: "string \<Rightarrow> params \<Rightarrow> request" where
  "post c p = \<lparr>http_method = ''POST'', auth_error = None, command = Some c, params = p\<rparr>"

section \<open>The bound of the parser\<close>

text \<open>
  Every successful call of the parser consumes input, and a call that has more than twice
  the length of its input as its bound gives the same result with any larger bound. So
  the \<open>None\<close> of \<open>JSON_parse\<close> is a syntax error, never an exhausted bound.
\<close>

lemma length_skip_ws: "length (skip_ws s) \<le> length s"
  by (simp add: skip_ws_def length_dropWhile_le)

lemma parse_chars_shorter: "parse_chars s = Some (str, r) \<Longrightarrow> length r < length s"
proof (induction s arbitrary: str r rule: parse_chars.induct)
  case 1
  then show ?case by simp
next
  case (2 c cs)
  then show ?case
    by (auto split: if_splits list.splits option.splits prod.splits simp: less_Suc_eq)
qed

lemma parse_int_part_shorter:
  assumes a: "parse_int_part s = Some (ip, r)"
  shows "length r < length s"
proof (cases s)
  case Nil
  then show ?thesis using a by (simp add: parse_int_part_def)
next
  case (Cons c cs)
  have "length (dropWhile is_digit cs) \<le> length cs" by (rule length_dropWhile_le)
  then show ?thesis using a Cons
    by (auto simp: parse_int_part_def split: if_splits)
qed

lemma parse_frac_part_shorter:
  assumes a: "parse_frac_part s = Some (fp, r)"
  shows "length r \<le> length s"
proof (cases s)
  case Nil
  then show ?thesis using a by (simp add: parse_frac_part_def)
next
  case (Cons c cs)
  have "length (dropWhile is_digit cs) \<le> length cs" by (rule length_dropWhile_le)
  then show ?thesis using a Cons
    by (auto simp: parse_frac_part_def split: if_splits)
qed

lemma parse_exp_part_shorter:
  assumes a: "parse_exp_part s = Some (ep, r)"
  shows "length r \<le> length s"
proof (cases s)
  case Nil
  then show ?thesis using a by (simp add: parse_exp_part_def)
next
  case (Cons c cs)
  have "length (dropWhile is_digit (drop k cs)) \<le> length cs" for k
    using length_dropWhile_le[of is_digit "drop k cs"] by simp
  then show ?thesis using a Cons
    by (auto simp: parse_exp_part_def Let_def le_Suc_eq split: if_splits)
qed

lemma parse_number_shorter:
  assumes a: "parse_number s = Some (l, r)"
  shows "length r < length s"
proof -
  define sgn where "sgn = (case s of [] \<Rightarrow> [] | g # _ \<Rightarrow> if g = 45 then [g] else ([] :: nat list))"
  from a obtain ip r1 fp r2 ep where
    1: "parse_int_part (drop (length sgn) s) = Some (ip, r1)" and
    2: "parse_frac_part r1 = Some (fp, r2)" and
    3: "parse_exp_part r2 = Some (ep, r)"
    unfolding parse_number_def sgn_def[symmetric] Let_def
    by (auto split: option.splits prod.splits)
  have "length r \<le> length r2" using parse_exp_part_shorter[OF 3] .
  also have "\<dots> \<le> length r1" using parse_frac_part_shorter[OF 2] .
  also have "\<dots> < length (drop (length sgn) s)" using parse_int_part_shorter[OF 1] .
  also have "\<dots> \<le> length s" by simp
  finally show ?thesis .
qed

lemma skip_ws_Cons_shorter: "skip_ws s = c # r \<Longrightarrow> length r < length s"
  using length_skip_ws[of s] by simp

lemma skip_ws_shorter_trans: "length s < k \<Longrightarrow> length (skip_ws s) < k"
  using length_skip_ws[of s] by simp

lemma parse_value_Suc_shorter:
  assumes mem: "\<And>s ms r. parse_members n s = Some (ms, r) \<Longrightarrow> length r < length s"
    and el: "\<And>s vs r. parse_elements n s = Some (vs, r) \<Longrightarrow> length r < length s"
    and a: "parse_value (Suc n) s = Some (v, r)"
  shows "length r < length s"
proof (cases s)
  case Nil
  then show ?thesis using a by simp
next
  case (Cons c cs)
  consider (obj) "c = 123" | (arr) "c \<noteq> 123" "c = 91" | (str) "c \<noteq> 123" "c \<noteq> 91" "c = 34"
    | (other) "c \<noteq> 123" "c \<noteq> 91" "c \<noteq> 34" by blast
  then show ?thesis
  proof cases
    case obj
    then obtain c1 r0 where sk: "skip_ws cs = c1 # r0"
      using a Cons by (auto split: list.splits)
    have l0: "length r0 < length cs" using skip_ws_Cons_shorter[OF sk] .
    show ?thesis
    proof (cases "c1 = 125")
      case True
      then show ?thesis using a Cons obj sk l0 by simp
    next
      case False
      then obtain ms where "parse_members n (c1 # r0) = Some (ms, r)"
        using a Cons obj sk by (auto split: option.splits)
      from mem[OF this] show ?thesis using l0 Cons by simp
    qed
  next
    case arr
    then obtain c1 r0 where sk: "skip_ws cs = c1 # r0"
      using a Cons by (auto split: list.splits)
    have l0: "length r0 < length cs" using skip_ws_Cons_shorter[OF sk] .
    show ?thesis
    proof (cases "c1 = 93")
      case True
      then show ?thesis using a Cons arr sk l0 by simp
    next
      case False
      then obtain vs where "parse_elements n (c1 # r0) = Some (vs, r)"
        using a Cons arr sk by (auto split: option.splits)
      from el[OF this] show ?thesis using l0 Cons by simp
    qed
  next
    case str
    then obtain x where "parse_chars cs = Some (x, r)"
      using a Cons by (auto split: option.splits)
    from parse_chars_shorter[OF this] show ?thesis using Cons by simp
  next
    case other
    show ?thesis
    proof (cases "prefix (js ''true'') s \<or> prefix (js ''false'') s \<or> prefix (js ''null'') s")
      case True
      then have "r = drop 4 s \<or> r = drop 5 s"
        using a Cons other by (auto split: if_splits)
      then show ?thesis using Cons by auto
    next
      case False
      then obtain l where "parse_number s = Some (l, r)"
        using a Cons other by (auto split: option.splits)
      from parse_number_shorter[OF this] show ?thesis .
    qed
  qed
qed

lemma parse_elements_Suc_shorter:
  assumes val: "\<And>s v r. parse_value n s = Some (v, r) \<Longrightarrow> length r < length s"
    and el: "\<And>s vs r. parse_elements n s = Some (vs, r) \<Longrightarrow> length r < length s"
    and a: "parse_elements (Suc n) s = Some (vs, r)"
  shows "length r < length s"
proof -
  from a obtain v r1 where v: "parse_value n s = Some (v, r1)"
    by (auto split: option.splits)
  from a v obtain c r2 where sk: "skip_ws r1 = c # r2"
    by (auto split: list.splits)
  have l2: "length r2 < length s"
    using skip_ws_Cons_shorter[OF sk] val[OF v] by simp
  show ?thesis
  proof (cases "c = 93")
    case True
    then show ?thesis using a v sk l2 by simp
  next
    case False
    then obtain vs' where "parse_elements n (skip_ws r2) = Some (vs', r)"
      using a v sk by (auto split: if_splits option.splits)
    from el[OF this] show ?thesis using skip_ws_shorter_trans[OF l2] by simp
  qed
qed

lemma parse_members_Suc_shorter:
  assumes val: "\<And>s v r. parse_value n s = Some (v, r) \<Longrightarrow> length r < length s"
    and mem: "\<And>s ms r. parse_members n s = Some (ms, r) \<Longrightarrow> length r < length s"
    and a: "parse_members (Suc n) s = Some (ms, r)"
  shows "length r < length s"
proof -
  from a obtain q cs where s: "s = q # cs" "q = 34"
    by (cases s) (auto split: if_splits)
  from a s obtain k r1 where k: "parse_chars cs = Some (k, r1)"
    by (auto split: option.splits)
  from a s k obtain c r2 where sk1: "skip_ws r1 = c # r2" "c = 58"
    by (auto split: list.splits if_splits)
  from a s k sk1 obtain v r3 where v: "parse_value n (skip_ws r2) = Some (v, r3)"
    by (auto split: option.splits)
  from a s k sk1 v obtain c' r4 where sk3: "skip_ws r3 = c' # r4"
    by (auto split: list.splits)
  have l1: "length r1 < length cs" using parse_chars_shorter[OF k] .
  have l2: "length r2 < length cs" using skip_ws_Cons_shorter[OF sk1(1)] l1 by simp
  have l3: "length r3 < length cs" using val[OF v] skip_ws_shorter_trans[OF l2] by simp
  have l4: "length r4 < length cs" using skip_ws_Cons_shorter[OF sk3] l3 by simp
  show ?thesis
  proof (cases "c' = 125")
    case True
    then show ?thesis using a s k sk1 v sk3 l4 by simp
  next
    case False
    then obtain ms' where "parse_members n (skip_ws r4) = Some (ms', r)"
      using a s k sk1 v sk3 by (auto split: if_splits option.splits)
    from mem[OF this] show ?thesis using skip_ws_shorter_trans[OF l4] s by simp
  qed
qed

lemma parse_shorter:
  "(\<forall>s v r. parse_value n s = Some (v, r) \<longrightarrow> length r < length s) \<and>
   (\<forall>s vs r. parse_elements n s = Some (vs, r) \<longrightarrow> length r < length s) \<and>
   (\<forall>s ms r. parse_members n s = Some (ms, r) \<longrightarrow> length r < length s)"
proof (induction n)
  case 0
  show ?case by simp
next
  case (Suc n)
  show ?case
    using Suc parse_value_Suc_shorter[of n] parse_elements_Suc_shorter[of n]
      parse_members_Suc_shorter[of n]
    by blast
qed

lemmas parse_simps_del = parse_value.simps parse_elements.simps parse_members.simps

lemma parse_value_stable_step:
  assumes mem: "\<And>x. 2 * length x + 1 \<le> n \<Longrightarrow> parse_members (Suc n) x = parse_members n x"
    and el: "\<And>x. 2 * length x + 2 \<le> n \<Longrightarrow> parse_elements (Suc n) x = parse_elements n x"
    and b: "2 * length s + 1 \<le> Suc n"
  shows "parse_value (Suc (Suc n)) s = parse_value (Suc n) s"
proof (cases s)
  case Nil
  then show ?thesis by simp
next
  case (Cons c cs)
  show ?thesis
  proof (cases "skip_ws cs")
    case Nil
    then show ?thesis
      unfolding parse_value.simps(2)[of "Suc n" s] parse_value.simps(2)[of n s]
      using Cons by simp
  next
    case (Cons c1 r0)
    have l: "length (c1 # r0) \<le> length cs"
      using length_skip_ws[of cs] Cons by simp
    have m: "parse_members (Suc n) (y # r0) = parse_members n (y # r0)" for y
      using l b \<open>s = c # cs\<close> by (intro mem) simp
    have e: "parse_elements (Suc n) (y # r0) = parse_elements n (y # r0)" for y
      using l b \<open>s = c # cs\<close> by (intro el) simp
    show ?thesis
      unfolding parse_value.simps(2)[of "Suc n" s] parse_value.simps(2)[of n s]
      using Cons \<open>s = c # cs\<close> by (simp add: m e del: parse_simps_del)
  qed
qed

lemma parse_elements_stable_step:
  assumes val: "\<And>x. 2 * length x + 1 \<le> n \<Longrightarrow> parse_value (Suc n) x = parse_value n x"
    and el: "\<And>x. 2 * length x + 2 \<le> n \<Longrightarrow> parse_elements (Suc n) x = parse_elements n x"
    and b: "2 * length s + 2 \<le> Suc n"
  shows "parse_elements (Suc (Suc n)) s = parse_elements (Suc n) s"
proof -
  have v: "parse_value (Suc n) s = parse_value n s"
    using b by (intro val) simp
  show ?thesis
  proof (cases "parse_value n s")
    case None
    then show ?thesis
      unfolding parse_elements.simps(2)[of "Suc n" s] parse_elements.simps(2)[of n s] v
      by simp
  next
    case (Some p)
    obtain x r1 where p: "p = (x, r1)" by (cases p)
    have l1: "length r1 < length s"
      using parse_shorter[of n] Some p by blast
    show ?thesis
    proof (cases "skip_ws r1")
      case Nil
      then show ?thesis
        unfolding parse_elements.simps(2)[of "Suc n" s] parse_elements.simps(2)[of n s] v
        using Some p by simp
    next
      case (Cons c r2)
      have "length (skip_ws r2) \<le> length r2" by (rule length_skip_ws)
      moreover have "length r2 < length r1" using skip_ws_Cons_shorter[OF Cons] .
      ultimately have e: "parse_elements (Suc n) (skip_ws r2) = parse_elements n (skip_ws r2)"
        using l1 b by (intro el) simp
      show ?thesis
        unfolding parse_elements.simps(2)[of "Suc n" s] parse_elements.simps(2)[of n s] v
        using Some p Cons by (simp add: e del: parse_simps_del)
    qed
  qed
qed

lemma parse_members_stable_step:
  assumes val: "\<And>x. 2 * length x + 1 \<le> n \<Longrightarrow> parse_value (Suc n) x = parse_value n x"
    and mem: "\<And>x. 2 * length x + 1 \<le> n \<Longrightarrow> parse_members (Suc n) x = parse_members n x"
    and b: "2 * length s + 1 \<le> Suc n"
  shows "parse_members (Suc (Suc n)) s = parse_members (Suc n) s"
proof (cases s)
  case Nil
  then show ?thesis by simp
next
  case (Cons q cs)
  note s = Cons
  show ?thesis
  proof (cases "parse_chars cs")
    case None
    then show ?thesis
      unfolding parse_members.simps(2)[of "Suc n" s] parse_members.simps(2)[of n s]
      using s by simp
  next
    case (Some p)
    obtain k r1 where p: "p = (k, r1)" by (cases p)
    have l1: "length r1 < length cs" using parse_chars_shorter[of cs k r1] Some p by simp
    show ?thesis
    proof (cases "skip_ws r1")
      case Nil
      then show ?thesis
        unfolding parse_members.simps(2)[of "Suc n" s] parse_members.simps(2)[of n s]
        using s Some p by simp
    next
      case (Cons c r2)
      have l2: "length r2 < length r1" using skip_ws_Cons_shorter[OF Cons] .
      have l2': "length (skip_ws r2) \<le> length r2" by (rule length_skip_ws)
      have v: "parse_value (Suc n) (skip_ws r2) = parse_value n (skip_ws r2)"
        using l1 l2 l2' b s by (intro val) simp
      show ?thesis
      proof (cases "parse_value n (skip_ws r2)")
        case None
        then show ?thesis
          unfolding parse_members.simps(2)[of "Suc n" s] parse_members.simps(2)[of n s]
          using s Some p Cons by (simp add: v del: parse_simps_del)
      next
        case (Some p')
        note pv = Some
        obtain x r3 where p': "p' = (x, r3)" by (cases p')
        have l3: "length r3 < length (skip_ws r2)"
          using parse_shorter[of n] pv p' by blast
        show ?thesis
        proof (cases "skip_ws r3")
          case Nil
          then show ?thesis
            unfolding parse_members.simps(2)[of "Suc n" s] parse_members.simps(2)[of n s]
            using s \<open>parse_chars cs = Some p\<close> p Cons pv p'
            by (simp add: v del: parse_simps_del)
        next
          case (Cons c' r4)
          have l4: "length r4 < length r3" using skip_ws_Cons_shorter[OF Cons] .
          have l4': "length (skip_ws r4) \<le> length r4" by (rule length_skip_ws)
          have m: "parse_members (Suc n) (skip_ws r4) = parse_members n (skip_ws r4)"
            using l1 l2 l2' l3 l4 l4' b s by (intro mem) simp
          show ?thesis
            unfolding parse_members.simps(2)[of "Suc n" s] parse_members.simps(2)[of n s]
            using s \<open>parse_chars cs = Some p\<close> p \<open>skip_ws r1 = c # r2\<close> pv p' Cons
            by (simp add: v m del: parse_simps_del)
        qed
      qed
    qed
  qed
qed

lemma parse_stable:
  "(\<forall>s. 2 * length s + 1 \<le> n \<longrightarrow> parse_value (Suc n) s = parse_value n s) \<and>
   (\<forall>s. 2 * length s + 2 \<le> n \<longrightarrow> parse_elements (Suc n) s = parse_elements n s) \<and>
   (\<forall>s. 2 * length s + 1 \<le> n \<longrightarrow> parse_members (Suc n) s = parse_members n s)"
proof (induction n)
  case 0
  show ?case by simp
next
  case (Suc n)
  show ?case
    using Suc parse_value_stable_step[of n] parse_elements_stable_step[of n]
      parse_members_stable_step[of n]
    by blast
qed

lemma parse_value_fuel:
  assumes "2 * length s + 1 \<le> n"
  shows "parse_value (n + k) s = parse_value n s"
proof (induction k)
  case 0
  show ?case by simp
next
  case (Suc k)
  have "parse_value (Suc (n + k)) s = parse_value (n + k) s"
    using parse_stable[of "n + k"] assms by simp
  then show ?case using Suc by simp
qed

text \<open>More fuel than \<open>JSON_parse\<close> gives changes nothing: its \<open>None\<close> is a syntax error.\<close>

lemma JSON_parse_fuel:
  "(case parse_value (2 * length s + 2 + k) (skip_ws s) of
      None \<Rightarrow> None
    | Some (v, r) \<Rightarrow> if skip_ws r = [] then Some v else None) = JSON_parse s"
proof -
  have "2 * length (skip_ws s) + 1 \<le> 2 * length s + 2"
    using length_skip_ws[of s] by simp
  from parse_value_fuel[OF this, of k] show ?thesis
    by (simp add: JSON_parse_def)
qed

section \<open>Validation and translation\<close>

lemma validCommands_nonempty: "c \<in> set validCommands \<Longrightarrow> c \<noteq> []"
  by (auto simp: validCommands_def)

lemma validate_out_of_range:
  assumes "c \<in> set validCommands" and "\<not> in_range p"
  shows "validateCommand c p = Inl SpeedOutOfRange \<or> validateCommand c p = Inl DurationOutOfRange"
  using assms by (auto simp: in_range_def validateCommand_def split: option.splits)

lemma validate_not_ok:
  assumes "\<not> in_range p"
  shows "validateCommand c p \<noteq> Inr ()"
  using assms by (auto simp: in_range_def validateCommand_def split: option.splits)

lemma dispatch_Inr:
  assumes "(dispatch req :: (nat \<times> 'j body) + (string \<times> robot_call)) = Inr (c, call)"
  shows "validateCommand c (params req) = Inr () \<and> translate c (params req) = Some call"
  using assms
  by (auto simp: dispatch_def split: if_splits option.splits sum.splits)

text \<open>
  What the movement and turret branches pass on: the supplied duration in every case, the
  supplied speed unless it is zero.
\<close>

lemma translate_movement:
  "translate ''forward'' p =
     Some (''move'', Some ''forward'', Some (or_num (speed p) 500), Some (or_num (duration p) 0), [])"
  "translate ''backward'' p =
     Some (''move'', Some ''backward'', Some (or_num (speed p) 500), Some (or_num (duration p) 0), [])"
  "translate ''left'' p =
     Some (''move'', Some ''left'', Some (or_num (speed p) 300), Some (or_num (duration p) 0), [])"
  "translate ''right'' p =
     Some (''move'', Some ''right'', Some (or_num (speed p) 300), Some (or_num (duration p) 0), [])"
  "translate ''turret_left'' p =
     Some (''turret'', Some ''left'', Some (or_num (speed p) 200), Some (or_num (duration p) 0), [])"
  "translate ''turret_right'' p =
     Some (''turret'', Some ''right'', Some (or_num (speed p) 200), Some (or_num (duration p) 0), [])"
  by (simp_all add: translate_def)

lemma or_num_supplied:
  "or_num None d = d"
  "v \<noteq> 0 \<Longrightarrow> or_num (Some v) d = v"
  "or_num (Some 0) d = d"
  "or_num (Some v) 0 = v"
  by (simp_all add: or_num_def)

text \<open>
  C1. The claim: a movement or turret command carries the supplied speed and duration, and
  the default only for an omitted parameter, so that a supplied speed of 0 appears as 0.
  The code replaces it: for the request \<^verbatim>\<open>{command: "forward", params: {speed: 0}}\<close>
  validation passes and the call made is \<^verbatim>\<open>sendCommandToRobot("move", "forward", 500, 0)\<close>,
  whose wire record has speed 500.
\<close>

theorem zero_speed_replaced_by_default:
  "(dispatch (post ''forward'' (no_params\<lparr>speed := Some 0\<rparr>))
      :: (nat \<times> json body) + (string \<times> robot_call))
     = Inr (''forward'', ''move'', Some ''forward'', Some 500, Some 0, []) \<and>
   get_prop (wire_record (''move'', Some ''forward'', Some 500, Some 0, [])) ''speed''
     = Some (VNum 500)"
  by (simp add: dispatch_def post_def no_params_def validateCommand_def validCommands_def
      translate_def or_num_def wire_record_def build_command_def get_prop_def)

text \<open>
  C6. A supplied speed outside \<open>[0, 2000]\<close> or a supplied duration above \<open>10\<close>: the
  handler responds without calling \<^verbatim>\<open>sendCommandToRobot\<close>, whatever the rest of the
  request and whatever the network would do; and for a recognised command of an
  authenticated POST request, validation fails with an out-of-range error, reported with
  status 500 and its message.
\<close>

theorem out_of_range_rejected:
  assumes "\<not> in_range (params req)"
  shows "(\<exists>r. (dispatch req :: (nat \<times> 'j body) + (string \<times> robot_call)) = Inl r) \<and>
         (\<forall>parse events. \<exists>r. controlRobot parse req events = Some (r :: nat \<times> 'j body) \<and>
                               dispatch req = Inl r) \<and>
         (http_method req = ''POST'' \<and> auth_error req = None \<and> command req = Some c \<and>
          c \<in> set validCommands \<longrightarrow>
            (\<exists>e. OutOfRange e \<and> validateCommand c (params req) = Inl e \<and>
                 (dispatch req :: (nat \<times> 'j body) + (string \<times> robot_call)) =
                   Inl (500, FailureBody (message e))))"
proof -
  have 1: "\<exists>r. (dispatch req :: (nat \<times> 'j body) + (string \<times> robot_call)) = Inl r"
    using validate_not_ok[OF assms] by (auto simp: dispatch_def split: option.splits sum.splits)
  have 2: "\<exists>e. OutOfRange e \<and> validateCommand c (params req) = Inl e \<and>
                 (dispatch req :: (nat \<times> 'j body) + (string \<times> robot_call)) =
                   Inl (500, FailureBody (message e))"
    if "http_method req = ''POST''" "auth_error req = None" "command req = Some c"
       "c \<in> set validCommands"
  proof -
    from validate_out_of_range[OF that(4) assms]
    obtain e where e: "OutOfRange e" "validateCommand c (params req) = Inl e" by auto
    then show ?thesis using that validCommands_nonempty[OF that(4)] by (auto simp: dispatch_def)
  qed
  have 3: "\<exists>r. controlRobot parse req events = Some (r :: nat \<times> 'j body) \<and> dispatch req = Inl r"
    for parse events
  proof -
    from 1 obtain r where "(dispatch req :: (nat \<times> 'j body) + (string \<times> robot_call)) = Inl r" ..
    then show ?thesis by (simp add: controlRobot_def)
  qed
  show ?thesis using 1 2 3 by blast
qed

theorem out_of_range_rejected_witness:
  "\<not> in_range (params (post ''forward'' (no_params\<lparr>speed := Some 2001\<rparr>))) \<and>
   (\<exists>e. OutOfRange e \<and>
        validateCommand ''forward'' (params (post ''forward'' (no_params\<lparr>speed := Some 2001\<rparr>)))
          = Inl e \<and>
        (dispatch (post ''forward'' (no_params\<lparr>speed := Some 2001\<rparr>))
           :: (nat \<times> json body) + (string \<times> robot_call))
          = Inl (500, FailureBody (message e)))"
proof -
  have h: "\<not> in_range (params (post ''forward'' (no_params\<lparr>speed := Some 2001\<rparr>)))"
    by (simp add: in_range_def post_def no_params_def)
  from out_of_range_rejected[OF h, of "''forward''", where ?'j = json] h
  show ?thesis by (simp add: post_def validCommands_def)
qed

text \<open>
  C9. A supplied negative duration is not rejected: validation gives what it gives without
  the duration, never the duration error, and the movement and turret commands pass the
  negative value on unchanged.
\<close>

theorem negative_duration_passes:
  assumes "duration p = Some d" and "d < 0"
  shows "validateCommand c p = validateCommand c (p\<lparr>duration := None\<rparr>) \<and>
         validateCommand c p \<noteq> Inl DurationOutOfRange \<and>
         (c \<in> {''forward'', ''backward'', ''left'', ''right'', ''turret_left'', ''turret_right''} \<longrightarrow>
            (\<exists>a dir s. translate c p = Some (a, dir, s, Some d, [])))"
  using assms
  by (auto simp: validateCommand_def translate_def or_num_def
      split: option.splits jsval.splits if_splits)

theorem negative_duration_passes_witness:
  "duration (no_params\<lparr>duration := Some (- 1)\<rparr>) = Some (- 1) \<and> (- 1 :: rat) < 0 \<and>
   validateCommand ''forward'' (no_params\<lparr>duration := Some (- 1)\<rparr>) = Inr () \<and>
   (\<exists>a dir s. translate ''forward'' (no_params\<lparr>duration := Some (- 1)\<rparr>)
                 = Some (a, dir, s, Some (- 1), []))"
proof -
  have h: "duration (no_params\<lparr>duration := Some (- 1)\<rparr>) = Some (- 1)" "(- 1 :: rat) < 0"
    by simp_all
  have v: "validateCommand ''forward'' (no_params\<lparr>duration := None\<rparr>) = Inr ()"
    by (simp add: validateCommand_def validCommands_def no_params_def)
  from negative_duration_passes[OF h, of "''forward''"] h v
  show ?thesis by simp
qed

text \<open>
  C8, as amended. For \<^verbatim>\<open>speak\<close>, with speed and duration passing the range rule:
  validation fails with an invalid-parameter error when the text is missing, is not a
  string, is the empty string or is longer than 500; it succeeds for every non-empty
  string of length at most 500, and the text is passed on.
\<close>

theorem speak_text_validation:
  assumes "in_range p"
  shows "(text p = None \<or> (\<exists>v. text p = Some v \<and> typeof v \<noteq> ''string'') \<or>
          (\<exists>s. text p = Some (VStr s) \<and> (s = [] \<or> length s > 500))
            \<longrightarrow> (\<exists>e. InvalidParameter e \<and> validateCommand ''speak'' p = Inl e)) \<and>
         (\<forall>s. text p = Some (VStr s) \<and> s \<noteq> [] \<and> length s \<le> 500
            \<longrightarrow> validateCommand ''speak'' p = Inr () \<and>
                translate ''speak'' p = Some (''speak'', None, None, None, [(''text'', VStr s)]))"
  using assms
  by (auto simp: validateCommand_def validCommands_def in_range_def translate_def
      split: option.splits jsval.splits)

theorem speak_text_validation_witness:
  "in_range (no_params\<lparr>text := Some (VStr (replicate 500 97))\<rparr>) \<and>
   length (replicate 500 (97 :: nat)) \<le> 500 \<and>
   validateCommand ''speak'' (no_params\<lparr>text := Some (VStr (replicate 500 97))\<rparr>) = Inr () \<and>
   in_range (no_params\<lparr>text := Some (VStr (replicate 501 97))\<rparr>) \<and>
   (\<exists>e. InvalidParameter e \<and>
        validateCommand ''speak'' (no_params\<lparr>text := Some (VStr (replicate 501 97))\<rparr>) = Inl e)"
proof -
  have h: "in_range (no_params\<lparr>text := Some (VStr (replicate 500 97))\<rparr>)"
          "in_range (no_params\<lparr>text := Some (VStr (replicate 501 97))\<rparr>)"
    by (simp_all add: in_range_def no_params_def)
  have ne: "replicate 500 (97 :: nat) \<noteq> []"
    by (simp add: replicate_empty)
  from speak_text_validation[OF h(1)] speak_text_validation[OF h(2)] h ne
  show ?thesis by simp
qed

text \<open>
  C8, the claim as stated fails: the empty string is a supplied string of length at most
  500, and \<^verbatim>\<open>speak\<close> rejects it as a missing text.
\<close>

theorem empty_text_rejected:
  "length ([] :: jsstring) \<le> 500 \<and>
   text (no_params\<lparr>text := Some (VStr [])\<rparr>) = Some (VStr []) \<and>
   in_range (no_params\<lparr>text := Some (VStr [])\<rparr>) \<and>
   validateCommand ''speak'' (no_params\<lparr>text := Some (VStr [])\<rparr>) = Inl TextRequired"
  by (simp add: validateCommand_def validCommands_def no_params_def in_range_def)

section \<open>Framing\<close>

lemma split_on_nonempty: "split_on d s \<noteq> []"
  by (induction s) (auto split: list.splits)

lemma split_on_append:
  "split_on d (a @ b) = butlast (split_on d a) @ split_on d (last (split_on d a) @ b)"
proof (induction a)
  case Nil
  show ?case by simp
next
  case (Cons c cs)
  obtain l ls where sp: "split_on d cs = l # ls"
    using split_on_nonempty[of d cs] by (cases "split_on d cs") auto
  show ?case
  proof (cases "c = d")
    case True
    then show ?thesis using Cons sp by simp
  next
    case False
    show ?thesis
    proof (cases ls)
      case Nil
      then show ?thesis using False Cons sp by simp
    next
      case (Cons l' ls')
      then show ?thesis using False Cons.IH sp by (simp split: list.splits)
    qed
  qed
qed

lemma split_on_no_sep: "d \<notin> set s \<Longrightarrow> split_on d s = [s]"
  by (induction s) auto

lemma split_on_sep: "d \<notin> set l \<Longrightarrow> split_on d (l @ d # r) = l # split_on d r"
  by (induction l) auto

lemma last_split_no_sep: "d \<notin> set (last (split_on d s))"
  by (induction s) (auto split: list.splits simp: split_on_nonempty)

lemma complete_lines_append:
  "complete_lines (a @ b) = complete_lines a @ complete_lines (remainder a @ b)"
  unfolding complete_lines_def remainder_def
  by (subst split_on_append) (simp add: butlast_append split_on_nonempty)

lemma remainder_append:
  "remainder (a @ b) = remainder (remainder a @ b)"
  unfolding remainder_def
  by (subst split_on_append) (simp add: split_on_nonempty)

lemma process_messages_first_reply:
  "process_messages parse ms = first_reply parse ms"
  by (induction ms) (auto simp: first_reply_def discarded_def response_of_def split: option.splits)

lemma first_reply_append:
  "first_reply parse (xs @ ys) =
     (case first_reply parse xs of None \<Rightarrow> first_reply parse ys | Some r \<Rightarrow> Some r)"
  by (induction xs) (auto simp: first_reply_def)

lemma str_includes_iff: "str_includes s sub \<longleftrightarrow> (\<exists>a b. s = a @ sub @ b)"
proof (induction s)
  case Nil
  then show ?case by auto
next
  case (Cons c cs)
  have "(\<exists>a b. c # cs = a @ sub @ b) \<longleftrightarrow> prefix sub (c # cs) \<or> (\<exists>a b. cs = a @ sub @ b)"
  proof
    assume "\<exists>a b. c # cs = a @ sub @ b"
    then obtain a b where ab: "c # cs = a @ sub @ b" by blast
    show "prefix sub (c # cs) \<or> (\<exists>a b. cs = a @ sub @ b)"
    proof (cases a)
      case Nil
      then show ?thesis using ab by (auto simp: prefix_def)
    next
      case (Cons x a')
      then show ?thesis using ab by auto
    qed
  next
    assume "prefix sub (c # cs) \<or> (\<exists>a b. cs = a @ sub @ b)"
    then show "\<exists>a b. c # cs = a @ sub @ b"
    proof
      assume "prefix sub (c # cs)"
      then obtain b where "c # cs = sub @ b" by (auto simp: prefix_def)
      then have "c # cs = [] @ sub @ b" by simp
      then show ?thesis by blast
    next
      assume "\<exists>a b. cs = a @ sub @ b"
      then obtain a b where "cs = a @ sub @ b" by blast
      then have "c # cs = (c # a) @ sub @ b" by simp
      then show ?thesis by blast
    qed
  qed
  then show ?case using Cons by simp
qed

lemma awaiting_connected: "awaiting parse cmd [] (step parse cmd initial Connected)"
  by (simp add: awaiting_def step_def initial_def first_reply_def complete_lines_def remainder_def)

lemma on_data_pending:
  assumes "process_messages parse (butlast (split_on LF (buffer s @ chunk))) = None"
  shows "on_data parse s chunk = s\<lparr>buffer := last (split_on LF (buffer s @ chunk))\<rparr>"
  using assms by (simp add: on_data_def Let_def)

lemma on_data_resolved:
  assumes "process_messages parse (butlast (split_on LF (buffer s @ chunk))) = Some r"
  shows "on_data parse s chunk =
           s\<lparr>buffer := last (split_on LF (buffer s @ chunk)), destroyed := True,
             calls := calls s @ [Resolved r]\<rparr>"
  using assms by (simp add: on_data_def Let_def)

lemma awaiting_data:
  assumes "awaiting parse cmd stream s"
  shows "awaiting parse cmd (stream @ chunk) (step parse cmd s (Data chunk))"
proof (cases "first_reply parse (complete_lines stream)")
  case (Some r)
  then have "destroyed s" using assms by (simp add: awaiting_def)
  then have "step parse cmd s (Data chunk) = s" by (simp add: step_def)
  moreover have "first_reply parse (complete_lines (stream @ chunk)) = Some r"
    using Some by (subst complete_lines_append) (simp add: first_reply_append)
  ultimately show ?thesis using assms Some by (simp add: awaiting_def)
next
  case None
  then have s: "connected s" "written s = [cmd]" "\<not> destroyed s" "calls s = []"
    "buffer s = remainder stream"
    using assms by (simp_all add: awaiting_def)
  have st: "step parse cmd s (Data chunk) = on_data parse s chunk"
    using s(1,3) by (simp add: step_def)
  have fr: "first_reply parse (complete_lines (stream @ chunk)) =
            process_messages parse (butlast (split_on LF (buffer s @ chunk)))"
    using None s(5)
    by (subst complete_lines_append)
       (simp add: first_reply_append process_messages_first_reply complete_lines_def)
  have rm: "remainder (stream @ chunk) = last (split_on LF (buffer s @ chunk))"
    unfolding s(5) by (subst remainder_append) (simp add: remainder_def)
  show ?thesis
  proof (cases "process_messages parse (butlast (split_on LF (buffer s @ chunk)))")
    case None
    show ?thesis
      unfolding st on_data_pending[OF None] awaiting_def fr rm None
      using s(1-4) by simp
  next
    case (Some r)
    show ?thesis
      unfolding st on_data_resolved[OF Some] awaiting_def fr Some
      using s(1-4) by simp
  qed
qed

lemma run_snoc: "run parse cmd (evs @ [ev]) = step parse cmd (run parse cmd evs) ev"
  by (simp add: run_def)

lemma awaiting_run:
  "awaiting parse cmd (concat chunks) (run parse cmd (Connected # map Data chunks))"
proof (induction chunks rule: rev_induct)
  case Nil
  show ?case using awaiting_connected[of parse cmd] by (simp add: run_def)
next
  case (snoc c cs)
  have "run parse cmd (Connected # map Data (cs @ [c])) =
        step parse cmd (run parse cmd (Connected # map Data cs)) (Data c)"
    using run_snoc[of parse cmd "Connected # map Data cs" "Data c"] by simp
  then show ?case using awaiting_data[OF snoc.IH, of c] by simp
qed

lemma step_destroyed: "destroyed s \<Longrightarrow> step parse cmd s ev = s"
  by (simp add: step_def)

lemma run_destroyed: "destroyed s \<Longrightarrow> foldl (step parse cmd) s evs = s"
  by (induction evs) (simp_all add: step_destroyed)

lemma run_append: "run parse cmd (evs @ evs') = foldl (step parse cmd) (run parse cmd evs) evs'"
  by (simp add: run_def)

lemma first_reply_first:
  assumes "\<forall>x \<in> set pre. discarded x" and "\<not> discarded m"
  shows "first_reply parse (pre @ m # later) = Some (response_of parse m)"
  using assms by (induction pre) (simp_all add: first_reply_def)


lemma close_before_reply:
  assumes "first_reply parse (complete_lines (concat chunks)) = None"
  shows "settled (run parse cmd (Connected # map Data chunks @ Close # evs)) = None"
proof -
  let ?s = "run parse cmd (Connected # map Data chunks)"
  have a: "awaiting parse cmd (concat chunks) ?s" by (rule awaiting_run)
  then have s: "\<not> destroyed ?s" "calls ?s = []"
    using assms by (simp_all add: awaiting_def)
  have "run parse cmd (Connected # map Data chunks @ Close # evs) =
        foldl (step parse cmd) (step parse cmd ?s Close) evs"
    using run_append[of parse cmd "Connected # map Data chunks" "Close # evs"] by simp
  also have "step parse cmd ?s Close = ?s\<lparr>destroyed := True\<rparr>"
    using s(1) by (simp add: step_def)
  also have "foldl (step parse cmd) (?s\<lparr>destroyed := True\<rparr>) evs = ?s\<lparr>destroyed := True\<rparr>"
    by (rule run_destroyed) simp
  finally show ?thesis using s(2) by (simp add: settled_def)
qed

lemma first_reply_all_discarded:
  assumes "\<forall>x \<in> set ms. discarded x"
  shows "first_reply parse ms = None"
  using assms by (induction ms) (simp_all add: first_reply_def)

lemma settled_run:
  "settled (run parse cmd (Connected # map Data chunks)) =
     map_option Resolved (first_reply parse (complete_lines (concat chunks)))"
  using awaiting_run[of parse cmd chunks]
  by (cases "first_reply parse (complete_lines (concat chunks))")
     (simp_all add: awaiting_def settled_def)

lemma calls_run:
  assumes "first_reply parse (complete_lines (concat chunks)) = Some r"
  shows "calls (run parse cmd (Connected # map Data chunks)) = [Resolved r] \<and>
         destroyed (run parse cmd (Connected # map Data chunks))"
  using awaiting_run[of parse cmd chunks] assms by (simp add: awaiting_def)

text \<open>The texts of the examples, evaluated.\<close>

lemma parse_ok_true:
  \<open>JSON_parse (js ''{"ok":true}'') = Some (JObject [(js ''ok'', JBool True)])\<close>
  by code_simp

lemma parse_DONE: "JSON_parse (js ''DONE'') = None"
  by code_simp

lemma parse_welcome_home:
  \<open>JSON_parse (js ''{"reply":"Welcome home"}'') =
     Some (JObject [(js ''reply'', JString (js ''Welcome home''))])\<close>
  by code_simp

lemma lines_banner_reply:
  \<open>complete_lines (concat [js ''Welcome\<newline>'', js ''{"ok":true}\<newline>'']) =
     [js ''Welcome''] @ js ''{"ok":true}'' # []\<close>
  by (simp add: complete_lines_def js_def)

lemma discarded_Welcome: "discarded (js ''Welcome'')"
  by (simp add: discarded_def is_greeting_def js_def)

lemma kept_ok_true: \<open>\<not> discarded (js ''{"ok":true}'')\<close>
  by (simp add: discarded_def is_greeting_def trim_def is_white_space_def js_def)

lemma lines_DONE: "complete_lines (concat [js ''DONE\<newline>'']) = [] @ js ''DONE'' # []"
  by (simp add: complete_lines_def js_def)

lemma trim_DONE: "trim (js ''DONE'') = js ''DONE''"
  by (simp add: trim_def is_white_space_def js_def)

lemma not_greeting_DONE: "\<not> is_greeting (js ''DONE'')"
  by (simp add: is_greeting_def js_def)

lemma split_fragment_1: \<open>split_on LF (js ''{"ok":tr'') = [js ''{"ok":tr'']\<close>
  by (simp add: js_def)

lemma split_fragment_2:
  \<open>split_on LF (js ''{"ok":tr'' @ js ''ue}\<newline>'') = [js ''{"ok":true}'', []]\<close>
  by (simp add: js_def)

lemma trim_ok_true: \<open>trim (js ''{"ok":true}'') \<noteq> []\<close>
  by (simp add: js_def trim_def is_white_space_def)

lemma not_greeting_ok_true: \<open>\<not> is_greeting (js ''{"ok":true}'')\<close>
  by (simp add: js_def is_greeting_def)

lemma welcome_home_parts:
  \<open>js ''{"reply":"Welcome home"}'' = js ''{"reply":"'' @ js ''Welcome'' @ js '' home"}''\<close>
  by (simp add: js_def)

lemma welcome_home_no_LF: \<open>LF \<notin> set (js ''{"reply":"Welcome home"}'')\<close>
  by (simp add: js_def)

lemma dispatch_get_status:
  "(dispatch (post ''get_status'' no_params) :: (nat \<times> 'j body) + (string \<times> robot_call)) =
     Inr (''get_status'', ''status'', None, None, None, [])"
  by (simp add: dispatch_def post_def no_params_def validateCommand_def validCommands_def
      translate_def)

lemma dispatch_beep_440:
  "(dispatch (post ''beep'' (no_params\<lparr>frequency := Some (VNum 440)\<rparr>))
      :: (nat \<times> 'j body) + (string \<times> robot_call)) =
     Inr (''beep'', ''beep'', None, None, None, [(''frequency'', VNum 440)])"
  by (simp add: dispatch_def post_def no_params_def validateCommand_def validCommands_def
      translate_def)

text \<open>
  C3. For every sequence of chunks received after the connect, the promise is settled
  exactly when some complete line of the concatenated stream is neither blank nor a
  greeting, and then with the response of the first such line; \<^verbatim>\<open>resolve\<close> is called at
  most once, and the socket is destroyed exactly when a line was accepted, so that no later
  chunk is processed. Whatever follows the first accepted line has no influence.
\<close>

theorem first_line_is_the_response:
  "settled (run parse cmd (Connected # map Data chunks)) =
     map_option Resolved (first_reply parse (complete_lines (concat chunks))) \<and>
   length (calls (run parse cmd (Connected # map Data chunks))) \<le> 1 \<and>
   (destroyed (run parse cmd (Connected # map Data chunks)) \<longleftrightarrow>
      first_reply parse (complete_lines (concat chunks)) \<noteq> None) \<and>
   (\<forall>pre m later. complete_lines (concat chunks) = pre @ m # later \<and>
       (\<forall>x \<in> set pre. discarded x) \<and> \<not> discarded m \<longrightarrow>
         settled (run parse cmd (Connected # map Data chunks)) =
           Some (Resolved (response_of parse m)))"
proof (intro conjI allI impI)
  have a: "awaiting parse cmd (concat chunks) (run parse cmd (Connected # map Data chunks))"
    by (rule awaiting_run)
  show "settled (run parse cmd (Connected # map Data chunks)) =
     map_option Resolved (first_reply parse (complete_lines (concat chunks)))"
    by (rule settled_run)
  show "length (calls (run parse cmd (Connected # map Data chunks))) \<le> 1"
    using a by (cases "first_reply parse (complete_lines (concat chunks))")
      (simp_all add: awaiting_def)
  show "destroyed (run parse cmd (Connected # map Data chunks)) \<longleftrightarrow>
      first_reply parse (complete_lines (concat chunks)) \<noteq> None"
    using a by (cases "first_reply parse (complete_lines (concat chunks))")
      (simp_all add: awaiting_def)
next
  fix pre m later
  assume h: "complete_lines (concat chunks) = pre @ m # later \<and>
       (\<forall>x \<in> set pre. discarded x) \<and> \<not> discarded m"
  then have "first_reply parse (complete_lines (concat chunks)) = Some (response_of parse m)"
    using first_reply_first[of pre m parse later] by simp
  then show "settled (run parse cmd (Connected # map Data chunks)) =
           Some (Resolved (response_of parse m))"
    by (simp add: settled_run)
qed

theorem first_line_is_the_response_witness:
  \<open>complete_lines (concat [js ''Welcome\<newline>'', js ''{"ok":true}\<newline>'']) =
     [js ''Welcome''] @ js ''{"ok":true}'' # [] \<and>
   discarded (js ''Welcome'') \<and> \<not> discarded (js ''{"ok":true}'') \<and>
   settled (run JSON_parse []
      (Connected # map Data [js ''Welcome\<newline>'', js ''{"ok":true}\<newline>''])) =
     Some (Resolved (Parsed (JObject [(js ''ok'', JBool True)])))\<close>
proof -
  have h: \<open>complete_lines (concat [js ''Welcome\<newline>'', js ''{"ok":true}\<newline>'']) =
             [js ''Welcome''] @ js ''{"ok":true}'' # [] \<and>
           (\<forall>x \<in> set [js ''Welcome'']. discarded x) \<and> \<not> discarded (js ''{"ok":true}'')\<close>
    using lines_banner_reply discarded_Welcome kept_ok_true by simp
  have \<open>settled (run JSON_parse []
           (Connected # map Data [js ''Welcome\<newline>'', js ''{"ok":true}\<newline>''])) =
         Some (Resolved (response_of JSON_parse (js ''{"ok":true}'')))\<close>
    using first_line_is_the_response[of JSON_parse "[]"
        \<open>[js ''Welcome\<newline>'', js ''{"ok":true}\<newline>'']\<close>] h
    by blast
  then show ?thesis using h by (simp add: response_of_def parse_ok_true)
qed

text \<open>
  C4. The reply \<^verbatim>\<open>{"ok":true}\<close> split over two data events: after the first fragment
  nothing is settled and the fragment is kept in the buffer; after the second the line is
  complete, the buffer is empty, \<^verbatim>\<open>resolve\<close> has been called exactly once, with the parsed
  object, and the socket is destroyed.
\<close>

theorem split_reply_reassembled:
  \<open>run JSON_parse cmd [Connected, Data (js ''{"ok":tr'')] =
     \<lparr>connected = True, destroyed = False, written = [cmd], buffer = js ''{"ok":tr'',
      calls = []\<rparr> \<and>
   run JSON_parse cmd [Connected, Data (js ''{"ok":tr''), Data (js ''ue}\<newline>'')] =
     \<lparr>connected = True, destroyed = True, written = [cmd], buffer = [],
      calls = [Resolved (Parsed (JObject [(js ''ok'', JBool True)]))]\<rparr> \<and>
   sendCommandToRobot JSON_parse a d s t extra
       [Connected, Data (js ''{"ok":tr''), Data (js ''ue}\<newline>'')] =
     Some (Resolved (Parsed (JObject [(js ''ok'', JBool True)])))\<close>
  by (simp add: sendCommandToRobot_def settled_def run_def step_def initial_def on_data_def
      Let_def split_fragment_1 split_fragment_2 trim_ok_true not_greeting_ok_true parse_ok_true)

text \<open>
  C5. When the first line of the stream that is neither blank nor a greeting fails to
  parse as JSON, the promise is resolved, once, with the fallback object around the
  trimmed text of that line, and the socket is destroyed.
\<close>

theorem non_json_line_resolves_with_text:
  assumes "complete_lines (concat chunks) = pre @ m # later"
    and "\<forall>x \<in> set pre. discarded x"
    and "trim m \<noteq> []" and "\<not> is_greeting m" and "parse m = None"
  shows "settled (run parse cmd (Connected # map Data chunks)) =
           Some (Resolved (TextResponse (trim m))) \<and>
         calls (run parse cmd (Connected # map Data chunks)) =
           [Resolved (TextResponse (trim m))] \<and>
         destroyed (run parse cmd (Connected # map Data chunks)) \<and>
         process_messages parse (m # later) = Some (TextResponse (trim m))"
proof -
  have nd: "\<not> discarded m" using assms(3,4) by (simp add: discarded_def)
  have fr: "first_reply parse (complete_lines (concat chunks)) = Some (TextResponse (trim m))"
    using first_reply_first[OF assms(2) nd, of parse later] assms(1,5)
    by (simp add: response_of_def)
  have pm: "process_messages parse (m # later) = Some (TextResponse (trim m))"
    using assms(3,4,5) by simp
  show ?thesis using calls_run[OF fr, of cmd] settled_run[of parse cmd chunks] fr pm by simp
qed

theorem non_json_line_resolves_with_text_witness:
  "complete_lines (concat [js ''DONE\<newline>'']) = [] @ js ''DONE'' # [] \<and>
   trim (js ''DONE'') \<noteq> [] \<and> \<not> is_greeting (js ''DONE'') \<and> JSON_parse (js ''DONE'') = None \<and>
   settled (run JSON_parse [] (Connected # map Data [js ''DONE\<newline>''])) =
     Some (Resolved (TextResponse (js ''DONE''))) \<and>
   destroyed (run JSON_parse [] (Connected # map Data [js ''DONE\<newline>'']))"
proof -
  have t: "trim (js ''DONE'') \<noteq> []"
    unfolding trim_DONE by (simp add: js_def)
  have e: "\<forall>x \<in> set ([] :: jsstring list). discarded x"
    by simp
  from non_json_line_resolves_with_text[where chunks = "[js ''DONE\<newline>'']" and pre = "[]"
      and m = "js ''DONE''" and later = "[]" and parse = JSON_parse and cmd = "[]",
      OF lines_DONE e t not_greeting_DONE parse_DONE]
    lines_DONE t not_greeting_DONE parse_DONE
  show ?thesis by (simp add: trim_DONE)
qed

text \<open>
  C10. The greeting test is containment: a line that has \<^verbatim>\<open>Welcome\<close> or
  \<^verbatim>\<open>Send JSON\<close> anywhere in it is a greeting, the loop passes over it whatever it parses
  to, and a stream that consists of this one line leaves the promise pending and the
  socket open.
\<close>

theorem greeting_is_substring_match:
  assumes "m = a @ js ''Welcome'' @ b \<or> m = a @ js ''Send JSON'' @ b"
  shows "is_greeting m \<and> discarded m \<and>
         process_messages parse (m # ms) = process_messages parse ms \<and>
         (LF \<notin> set m \<longrightarrow>
            settled (run parse cmd (Connected # map Data [m @ [LF]])) = None \<and>
            \<not> destroyed (run parse cmd (Connected # map Data [m @ [LF]])))"
proof -
  have g: "is_greeting m"
    using assms unfolding is_greeting_def str_includes_iff by blast
  then have d: "discarded m" by (simp add: discarded_def)
  have p: "process_messages parse (m # ms) = process_messages parse ms"
    using g by simp
  have r: "settled (run parse cmd (Connected # map Data [m @ [LF]])) = None \<and>
           \<not> destroyed (run parse cmd (Connected # map Data [m @ [LF]]))"
    if "LF \<notin> set m"
  proof -
    have "complete_lines (concat [m @ [LF]]) = [m]"
      using split_on_sep[OF that, of "[]"] by (simp add: complete_lines_def)
    then have "first_reply parse (complete_lines (concat [m @ [LF]])) = None"
      using d by (simp add: first_reply_def)
    then show ?thesis
      using awaiting_run[of parse cmd "[m @ [LF]]"] settled_run[of parse cmd "[m @ [LF]]"]
      by (simp add: awaiting_def)
  qed
  show ?thesis using g d p r by blast
qed

theorem greeting_is_substring_match_witness:
  \<open>js ''{"reply":"Welcome home"}'' = js ''{"reply":"'' @ js ''Welcome'' @ js '' home"}'' \<and>
   LF \<notin> set (js ''{"reply":"Welcome home"}'') \<and>
   JSON_parse (js ''{"reply":"Welcome home"}'') =
     Some (JObject [(js ''reply'', JString (js ''Welcome home''))]) \<and>
   is_greeting (js ''{"reply":"Welcome home"}'') \<and>
   settled (run JSON_parse []
      (Connected # map Data [js ''{"reply":"Welcome home"}'' @ [LF]])) = None\<close>
proof -
  have h: \<open>js ''{"reply":"Welcome home"}'' = js ''{"reply":"'' @ js ''Welcome'' @ js '' home"}'' \<or>
           js ''{"reply":"Welcome home"}'' = js ''{"reply":"'' @ js ''Send JSON'' @ js '' home"}''\<close>
    using welcome_home_parts by (rule disjI1)
  from greeting_is_substring_match[OF h, of JSON_parse _ "[]"]
    welcome_home_parts welcome_home_no_LF parse_welcome_home
  show ?thesis by blast
qed

text \<open>
  C2. The claim: when the peer closes before any line was accepted, the call is settled
  with a closed-early failure, so that the caller always gets an outcome. The code's
  \<^verbatim>\<open>close\<close> handler only logs: after the greeting and the peer's close, and after a
  close with no data at all, the promise is pending, no further event can come, and the
  handler never responds.
\<close>

theorem peer_close_leaves_promise_pending:
  "sendCommandToRobot JSON_parse ''status'' None None None []
      [Connected, Data (js ''Welcome\<newline>''), Close] = None \<and>
   controlRobot JSON_parse (post ''get_status'' no_params)
      [Connected, Data (js ''Welcome\<newline>''), Close] = None \<and>
   controlRobot JSON_parse (post ''get_status'' no_params) [Connected, Close] = None"
proof -
  have 1: "first_reply JSON_parse (complete_lines (concat [js ''Welcome\<newline>''])) = None"
    using discarded_Welcome by (simp add: complete_lines_def first_reply_def js_def)
  have 2: "first_reply JSON_parse (complete_lines (concat [])) = None"
    by (simp add: complete_lines_def first_reply_def)
  show ?thesis
    unfolding controlRobot_def dispatch_get_status sendCommandToRobot_def
    using close_before_reply[OF 1] close_before_reply[OF 2]
    by simp
qed

text \<open>
  C7. The fields of the wire message, for every request that reaches the transport: the
  action alone for the parameterless commands; action, direction, speed and duration for
  the movement and turret commands; the action and the four axes for the joystick; the
  action and the text for \<^verbatim>\<open>speak\<close>; for \<^verbatim>\<open>beep\<close> the action, then the frequency
  exactly when the request has one and the duration exactly when the request has one,
  each with the value of the request.
\<close>

theorem wire_fields_follow_table:
  assumes "(dispatch req :: (nat \<times> 'j body) + (string \<times> robot_call)) = Inr (c, call)"
  shows "(c \<in> {''stop'', ''stop_turret'', ''get_status'', ''get_help'', ''battery''} \<longrightarrow>
            keys (wire_record call) = [''action'']) \<and>
         (c \<in> {''forward'', ''backward'', ''left'', ''right'', ''turret_left'', ''turret_right''} \<longrightarrow>
            keys (wire_record call) = [''action'', ''direction'', ''speed'', ''duration'']) \<and>
         (c = ''joystick_control'' \<longrightarrow>
            keys (wire_record call) =
              [''action'', ''l_left'', ''l_forward'', ''r_left'', ''r_forward'']) \<and>
         (c = ''speak'' \<longrightarrow> keys (wire_record call) = [''action'', ''text'']) \<and>
         (c = ''beep'' \<longrightarrow>
            keys (wire_record call) =
              [''action''] @
              (case frequency (params req) of None \<Rightarrow> [] | Some _ \<Rightarrow> [''frequency'']) @
              (case duration (params req) of None \<Rightarrow> [] | Some _ \<Rightarrow> [''duration'']) \<and>
            get_prop (wire_record call) ''frequency'' = frequency (params req) \<and>
            get_prop (wire_record call) ''duration'' = map_option VNum (duration (params req)))"
proof -
  from dispatch_Inr[OF assms]
  have v: "validateCommand c (params req) = Inr ()" and t: "translate c (params req) = Some call"
    by simp_all
  have 1: "keys (wire_record call) = [''action'']"
    if "c \<in> {''stop'', ''stop_turret'', ''get_status'', ''get_help'', ''battery''}"
    using that t by (auto simp: translate_def wire_record_def build_command_def keys_def)
  have 2: "keys (wire_record call) = [''action'', ''direction'', ''speed'', ''duration'']"
    if "c \<in> {''forward'', ''backward'', ''left'', ''right'', ''turret_left'', ''turret_right''}"
    using that t by (auto simp: translate_def wire_record_def build_command_def keys_def)
  have 3: "keys (wire_record call) =
             [''action'', ''l_left'', ''l_forward'', ''r_left'', ''r_forward'']"
    if "c = ''joystick_control''"
    using that t by (auto simp: translate_def wire_record_def build_command_def keys_def)
  have 4: "keys (wire_record call) = [''action'', ''text'']" if "c = ''speak''"
    using that t v
    by (auto simp: translate_def wire_record_def build_command_def keys_def validateCommand_def
        split: option.splits if_splits)
  have 5: "keys (wire_record call) =
              [''action''] @
              (case frequency (params req) of None \<Rightarrow> [] | Some _ \<Rightarrow> [''frequency'']) @
              (case duration (params req) of None \<Rightarrow> [] | Some _ \<Rightarrow> [''duration'']) \<and>
            get_prop (wire_record call) ''frequency'' = frequency (params req) \<and>
            get_prop (wire_record call) ''duration'' = map_option VNum (duration (params req))"
    if "c = ''beep''"
    using that t
    by (auto simp: translate_def wire_record_def build_command_def keys_def get_prop_def
        split: option.splits)
  show ?thesis using 1 2 3 4 5 by blast
qed

theorem wire_fields_follow_table_witness:
  "(dispatch (post ''beep'' (no_params\<lparr>frequency := Some (VNum 440)\<rparr>))
      :: (nat \<times> json body) + (string \<times> robot_call)) =
     Inr (''beep'', ''beep'', None, None, None, [(''frequency'', VNum 440)]) \<and>
   keys (wire_record (''beep'', None, None, None, [(''frequency'', VNum 440)])) =
     [''action'', ''frequency''] \<and>
   (dispatch (post ''get_status'' no_params)
      :: (nat \<times> json body) + (string \<times> robot_call)) =
     Inr (''get_status'', ''status'', None, None, None, []) \<and>
   keys (wire_record (''status'', None, None, None, [])) = [''action'']"
proof -
  from wire_fields_follow_table[OF dispatch_beep_440[where ?'j = json]]
       wire_fields_follow_table[OF dispatch_get_status[where ?'j = json]]
       dispatch_beep_440[where ?'j = json] dispatch_get_status[where ?'j = json]
  show ?thesis by (simp add: post_def no_params_def)
qed

end
